theory Spec2Isabelle
  imports Main "HOL-Library.AList"
begin

section \<open>JavaScript strings\<close>

text \<open>
  A JavaScript string is modelled as a \<^typ>\<open>string\<close>; one \<^typ>\<open>char\<close> stands for one
  code unit, so \<^const>\<open>length\<close> is the string's \<open>length\<close> property. The two code units
  U+2028 and U+2029 do not exist in this model. Converting a string to a \<open>Buffer\<close> and
  back (\<open>new Buffer(s)\<close>, \<open>contents.toString()\<close>) is the identity.
\<close>

definition endsWith :: "string \<Rightarrow> string \<Rightarrow> bool" where
  \<comment> \<open>\<open>s.substr(-n) === suf\<close> with \<open>n\<close> the length of \<open>suf\<close>; also the regular expression \<open>suf$\<close>\<close>
  "endsWith s suf = (length suf \<le> length s \<and> drop (length s - length suf) s = suf)"

fun lastIndexFrom :: "string \<Rightarrow> char \<Rightarrow> nat \<Rightarrow> int" where
  "lastIndexFrom s c 0 = (if 0 < length s \<and> s ! 0 = c then 0 else - 1)"
| "lastIndexFrom s c (Suc k) =
     (if Suc k < length s \<and> s ! Suc k = c then int (Suc k) else lastIndexFrom s c k)"

definition lastIndexOf :: "string \<Rightarrow> char \<Rightarrow> int \<Rightarrow> int" where
  \<comment> \<open>\<open>s.lastIndexOf(c, pos)\<close> for a one-character search string: the position is clamped
      to \<open>0 .. length - 1\<close>, the search runs downwards from there, \<open>-1\<close> when nothing is found\<close>
  "lastIndexOf s c pos = lastIndexFrom s c (nat (min (max pos 0) (int (length s) - 1)))"

definition substring0 :: "string \<Rightarrow> int \<Rightarrow> string" where
  \<comment> \<open>\<open>s.substring(0, e)\<close>: the end is clamped to \<open>0 .. length\<close>\<close>
  "substring0 s e = take (nat (min (max e 0) (int (length s)))) s"

definition removeSourceMapComment :: "string \<Rightarrow> string" where
  "removeSourceMapComment content =
     (let index = lastIndexOf content CHR 0x0A (int (length content) - 2)
      in substring0 content index @ [CHR 0x0A])"

definition getOriginalName :: "string \<Rightarrow> string" where
  \<comment> \<open>\<open>filename.replace(/(\.d\.ts|\.js|\.js.map)$/, '.ts')\<close>; the three alternatives end in
      different letters, so at most one of them matches. The unescaped dot of the third
      alternative is any character but a line terminator.\<close>
  "getOriginalName name =
     (let n = length name in
      if endsWith name ''.d.ts'' then take (n - 5) name @ ''.ts''
      else if endsWith name ''.js'' then take (n - 3) name @ ''.ts''
      else if 7 \<le> n \<and> take 3 (drop (n - 7) name) = ''.js''
              \<and> name ! (n - 4) \<noteq> CHR 0x0A \<and> name ! (n - 4) \<noteq> CHR 0x0D
              \<and> endsWith name ''map''
        then take (n - 7) name @ ''.ts''
      else name)"

section \<open>Data model\<close>

text \<open>A vinyl file of the build pipeline (\<open>gutil.File\<close>) whose contents are a buffer.\<close>

record 'sm File =
  path :: string
  contents :: string
  cwd :: string
  base :: string
  sourceMap :: "'sm option"

text \<open>
  \<open>FileData\<close>; the optional field \<open>file\<close> is called \<open>gulpFile\<close> here. The type \<open>'ts\<close> is
  the compiler's parsed source file, \<open>'sm\<close> a source map object.
\<close>

record ('ts, 'sm) FileData =
  gulpFile :: "'sm File option"
  filename :: string
  originalFilename :: string
  content :: string
  ts :: 'ts

record 'sm OutputFile =
  out_filename :: string
  out_content :: string
  sourcemap :: "'sm option"

text \<open>
  \<open>Map<T>\<close> is a JavaScript object used as a dictionary: an association list in insertion
  order (\<^const>\<open>AList.update\<close> overwrites in place or appends, \<^const>\<open>map_of\<close> looks up,
  \<open>Object.keys(m).length\<close> is the length). Keys that are array indices, which JavaScript
  enumerates first, and the properties inherited from \<open>Object.prototype\<close> are not modelled.
\<close>

type_synonym 'a Map = "(string \<times> 'a) list"

record Diagnostic =
  code :: int
  messageText :: string

text \<open>The result of running the compiler: its diagnostics, the files it wrote through
  the host (\<open>host.output\<close>, here \<open>hostOutput\<close>) and the program's \<open>getSourceFile\<close>.\<close>

record 'ts Program =
  errors :: "Diagnostic list"
  hostOutput :: "string Map"
  getSourceFile :: "string \<Rightarrow> 'ts option"

text \<open>
  What the project calls outside this repository's two files: Node's \<open>path\<close> and \<open>fs\<close>
  modules, \<open>String.prototype.toLowerCase\<close>, the TypeScript API behind \<open>tsApi\<close> and
  \<open>host.Host\<close>, and the source-map library. They are parameters of the model.
  \<^item> \<open>createSourceFile name text version\<close> is \<open>tsApi.createSourceFile\<close> for the project's
    options;
  \<^item> \<open>referencedFiles sf\<close> is \<open>sf.referencedFiles.map(tsApi.getFileName)\<close>;
  \<^item> \<open>readFile p\<close> is what \<open>fs.readFile\<close> hands to its callback as data (\<open>None\<close> on error);
  \<^item> \<open>createProgram roots cwd files externalResolve\<close> is \<open>createProgram\<close> over a new
    \<open>Host\<close>, followed by \<open>tsApi.getDiagnosticsAndEmit\<close>;
  \<^item> \<open>composeSourceMap map name upstream\<close> is the body of \<open>if (map) { ... }\<close> in \<open>emit\<close>: the
    parsed and rewritten map with the upstream maps applied in order, \<open>None\<close> when
    \<open>JSON.parse\<close> or the library throws.
\<close>

record ('ts, 'sm) env =
  path_normalize :: "string \<Rightarrow> string"
  path_join :: "string \<Rightarrow> string \<Rightarrow> string"
  path_dirname :: "string \<Rightarrow> string"
  toLowerCase :: "string \<Rightarrow> string"
  createSourceFile :: "string \<Rightarrow> string \<Rightarrow> nat \<Rightarrow> 'ts"
  getFileName :: "'ts \<Rightarrow> string"
  referencedFiles :: "'ts \<Rightarrow> string list"
  readFile :: "string \<Rightarrow> string option"
  createProgram :: "string list \<Rightarrow> string \<Rightarrow> ('ts, 'sm) FileData option Map \<Rightarrow> bool \<Rightarrow> 'ts Program"
  composeSourceMap :: "string \<Rightarrow> string \<Rightarrow> 'sm list \<Rightarrow> 'sm option"

text \<open>
  The fields of class \<open>Project\<close>. \<open>out\<close> is \<open>options.out\<close>; \<open>filterSettings\<close> is the
  \<open>match\<close> function of the filter built from the settings, when there are settings.
  An entry \<open>None\<close> of \<open>additionalFiles\<close> is the placeholder \<open>Project.unresolvedFile\<close>.
\<close>

record ('ts, 'sm) Project =
  previousFiles :: "('ts, 'sm) FileData Map"
  currentFiles :: "('ts, 'sm) FileData Map"
  additionalFiles :: "('ts, 'sm) FileData option Map"
  firstFile :: "('ts, 'sm) FileData option"
  isFileChanged :: bool
  previousOutputJS :: "'sm OutputFile list option"
  previousOutputDts :: "'sm OutputFile list option"
  noExternalResolve :: bool
  sortOutput :: bool
  version :: nat
  out :: "string option"
  filterSettings :: "(string \<Rightarrow> bool) option"

definition unresolvedFile :: "('ts, 'sm) FileData option" where
  "unresolvedFile = None"

text \<open>The two output streams; \<open>push\<close> appends. \<open>reported\<close> lists the diagnostics handed
  to the error callback.\<close>

record 'sm streams =
  jsStream :: "'sm File list"
  declStream :: "'sm File list"
  reported :: "Diagnostic list"

text \<open>
  A \<open>for\<close> loop whose body may throw: \<open>Inr\<close> is the state after a normal step, \<open>Inl\<close> the
  state at the moment of the throw, which ends the loop.
\<close>

fun forEach :: "('a \<Rightarrow> 'x \<Rightarrow> 'a + 'a) \<Rightarrow> 'a \<Rightarrow> 'x list \<Rightarrow> 'a + 'a" where
  "forEach body a [] = Inr a"
| "forEach body a (x # xs) =
     (case body a x of Inl a' \<Rightarrow> Inl a' | Inr a' \<Rightarrow> forEach body a' xs)"

text \<open>The state a computation leaves behind, whether it returned or threw.\<close>

definition final :: "'a + 'a \<Rightarrow> 'a" where
  "final r = (case r of Inl a \<Rightarrow> a | Inr a \<Rightarrow> a)"

section \<open>Class Project: ingestion\<close>

definition normalizePath :: "('ts, 'sm) env \<Rightarrow> string \<Rightarrow> string" where
  "normalizePath E pathString = toLowerCase E (path_normalize E pathString)"

definition reset :: "('ts, 'sm) Project \<Rightarrow> ('ts, 'sm) Project" where
  "reset s = s\<lparr>previousFiles := currentFiles s, firstFile := None, isFileChanged := False,
               currentFiles := [], additionalFiles := [], version := version s + 1\<rparr>"

definition getFileData ::
  "('ts, 'sm) env \<Rightarrow> ('ts, 'sm) Project \<Rightarrow> string \<Rightarrow> string \<Rightarrow> ('ts, 'sm) FileData" where
  "getFileData E s name text =
     \<lparr>gulpFile = None, filename = normalizePath E name, originalFilename = name,
      content = text, ts = createSourceFile E name text (version s)\<rparr>"

definition getFileDataFromGulpFile ::
  "('ts, 'sm) env \<Rightarrow> ('ts, 'sm) Project \<Rightarrow> 'sm File \<Rightarrow> ('ts, 'sm) FileData" where
  "getFileDataFromGulpFile E s f = (getFileData E s (path f) (contents f))\<lparr>gulpFile := Some f\<rparr>"

definition addFile ::
  "('ts, 'sm) env \<Rightarrow> ('ts, 'sm) Project \<Rightarrow> 'sm File \<Rightarrow> ('ts, 'sm) Project" where
  "addFile E s f =
     (let name = normalizePath E (path f);
          unchanged = (case map_of (previousFiles s) name of
                         Some oldFileData \<Rightarrow> content oldFileData = contents f
                       | None \<Rightarrow> False);
          fileData = (case map_of (previousFiles s) name of
                        Some oldFileData \<Rightarrow>
                          if content oldFileData = contents f
                          then \<lparr>gulpFile = Some f, filename = filename oldFileData,
                                originalFilename = path f, content = content oldFileData,
                                ts = ts oldFileData\<rparr>
                          else getFileDataFromGulpFile E s f
                      | None \<Rightarrow> getFileDataFromGulpFile E s f)
      in s\<lparr>isFileChanged := (if unchanged then isFileChanged s else True),
            firstFile := (case firstFile s of None \<Rightarrow> Some fileData | Some first \<Rightarrow> Some first),
            currentFiles := AList.update name fileData (currentFiles s)\<rparr>)"

section \<open>Class Project: replaying the previous output\<close>

text \<open>One round of either loop of \<open>lazyCompile\<close>; \<open>original.file.cwd\<close> throws when the
  unit has no file.\<close>

definition replayJS ::
  "('ts, 'sm) env \<Rightarrow> ('ts, 'sm) Project \<Rightarrow> 'sm streams \<Rightarrow> 'sm OutputFile
     \<Rightarrow> 'sm streams + 'sm streams" where
  "replayJS E s io cached =
     (case map_of (currentFiles s) (getOriginalName (normalizePath E (out_filename cached))) of
        None \<Rightarrow> Inr io
      | Some original \<Rightarrow>
          (case gulpFile original of
             None \<Rightarrow> Inl io
           | Some g \<Rightarrow>
               Inr (io\<lparr>jsStream := jsStream io @
                  [\<lparr>path = take (length (originalFilename original) - 3) (originalFilename original)
                            @ ''.js'',
                    contents = out_content cached, cwd = cwd g, base = base g,
                    sourceMap = sourcemap cached\<rparr>]\<rparr>)))"

definition replayDts ::
  "('ts, 'sm) env \<Rightarrow> ('ts, 'sm) Project \<Rightarrow> 'sm streams \<Rightarrow> 'sm OutputFile
     \<Rightarrow> 'sm streams + 'sm streams" where
  "replayDts E s io cached =
     (case map_of (currentFiles s) (getOriginalName (normalizePath E (out_filename cached))) of
        None \<Rightarrow> Inr io
      | Some original \<Rightarrow>
          (case gulpFile original of
             None \<Rightarrow> Inl io
           | Some g \<Rightarrow>
               Inr (io\<lparr>declStream := declStream io @
                  [\<lparr>path = take (length (originalFilename original) - 3) (originalFilename original)
                            @ ''.d.ts'',
                    contents = out_content cached, cwd = cwd g, base = base g,
                    sourceMap = None\<rparr>]\<rparr>)))"

text \<open>\<open>lazyCompile\<close>: \<open>Inr (b, io)\<close> when it returns \<open>b\<close>, \<open>Inl io\<close> when it throws.\<close>

definition lazyCompile ::
  "('ts, 'sm) env \<Rightarrow> ('ts, 'sm) Project \<Rightarrow> 'sm streams \<Rightarrow> 'sm streams + bool \<times> 'sm streams" where
  "lazyCompile E s io =
     (case (previousOutputJS s, previousOutputDts s) of
        (Some outputJS, Some outputDts) \<Rightarrow>
          if isFileChanged s = False
             \<and> length (currentFiles s) = length (previousFiles s)
          then (case forEach (replayJS E s) io outputJS of
                  Inl io1 \<Rightarrow> Inl io1
                | Inr io1 \<Rightarrow>
                    (case forEach (replayDts E s) io1 outputDts of
                       Inl io2 \<Rightarrow> Inl io2
                     | Inr io2 \<Rightarrow> Inr (True, io2)))
          else Inr (False, io)
      | _ \<Rightarrow> Inr (False, io))"

section \<open>Class Project: compiling and emitting\<close>

text \<open>
  The variables of \<open>compile\<close> that its loops and the closures \<open>emit\<close> and \<open>sortedEmit\<close>
  share: the project (for its two output caches), the streams, the array \<open>outputJS\<close> and
  the object \<open>sourcemaps\<close>.
\<close>

record ('ts, 'sm) compiling =
  project :: "('ts, 'sm) Project"
  outStreams :: "'sm streams"
  outputJS :: "'sm File list"
  sourcemaps :: "string Map"

definition withoutExtension :: "string \<Rightarrow> string" where
  \<comment> \<open>\<open>fullOriginalNameWithoutExtension\<close>\<close>
  "withoutExtension fullOriginalName =
     (let lastDot = lastIndexOf fullOriginalName CHR ''.'' (int (length fullOriginalName))
      in substring0 fullOriginalName
           (if lastDot = - 1 then int (length fullOriginalName) else lastDot))"

text \<open>
  The unit an emitted file belongs to, with \<open>fullOriginalName\<close>: \<open>Inr None\<close> is the
  \<open>continue\<close>, \<open>Inl ()\<close> the failure of \<open>original.file.base\<close> on a unit without a file.
\<close>

definition findOriginal ::
  "('ts, 'sm) env \<Rightarrow> ('ts, 'sm) Project \<Rightarrow> string
     \<Rightarrow> unit + (('ts, 'sm) FileData \<times> string) option" where
  "findOriginal E s originalName =
     (case out s of
        Some outName \<Rightarrow>
          (case firstFile s of
             None \<Rightarrow> Inr None
           | Some original \<Rightarrow>
               (case gulpFile original of
                  None \<Rightarrow> Inl ()
                | Some g \<Rightarrow> Inr (Some (original, path_join E (base g) outName))))
      | None \<Rightarrow>
          (case map_of (currentFiles s) originalName of
             None \<Rightarrow> Inr None
           | Some original \<Rightarrow> Inr (Some (original, originalFilename original))))"

text \<open>One round of the loop over \<open>host.output\<close>.\<close>

definition reconcile ::
  "('ts, 'sm) env \<Rightarrow> ('ts, 'sm) compiling \<Rightarrow> string \<times> string
     \<Rightarrow> ('ts, 'sm) compiling + ('ts, 'sm) compiling" where
  "reconcile E c entry =
     (let name = fst entry; data = snd entry; s = project c;
          originalName = getOriginalName (normalizePath E name)
      in case findOriginal E s originalName of
           Inl _ \<Rightarrow> Inl c
         | Inr None \<Rightarrow> Inr c
         | Inr (Some (original, fullOriginalName)) \<Rightarrow>
             if endsWith name ''.js'' then
               (case gulpFile original of
                  None \<Rightarrow> Inl c
                | Some g \<Rightarrow>
                    Inr (c\<lparr>outputJS := outputJS c @
                      [\<lparr>path = withoutExtension fullOriginalName @ ''.js'',
                        contents = removeSourceMapComment data,
                        cwd = cwd g, base = base g, sourceMap = None\<rparr>]\<rparr>))
             else if endsWith name ''.d.ts'' then
               (case gulpFile original of
                  None \<Rightarrow> Inl c
                | Some g \<Rightarrow>
                    (let f = \<lparr>path = withoutExtension fullOriginalName @ ''.d.ts'',
                              contents = data, cwd = cwd g, base = base g, sourceMap = None\<rparr>
                     in Inr (c\<lparr>project := s\<lparr>previousOutputDts :=
                                  (case previousOutputDts s of
                                     None \<Rightarrow> None
                                   | Some cached \<Rightarrow>
                                       Some (cached @ [\<lparr>out_filename = path f, out_content = data,
                                                        sourcemap = None\<rparr>]))\<rparr>,
                               outStreams := (outStreams c)\<lparr>declStream := declStream (outStreams c) @ [f]\<rparr>\<rparr>)))
             else if endsWith name ''.map'' then
               Inr (c\<lparr>sourcemaps :=
                      AList.update (case out s of Some _ \<Rightarrow> [] | None \<Rightarrow> originalName) data
                        (sourcemaps c)\<rparr>)
             else Inr c)"

text \<open>The end of \<open>emit\<close>: the file is recorded for replay, when there is a cache, and
  pushed.\<close>

definition asOutputFile :: "'sm File \<Rightarrow> 'sm OutputFile" where
  "asOutputFile f = \<lparr>out_filename = path f, out_content = contents f, sourcemap = sourceMap f\<rparr>"

definition pushJS :: "('ts, 'sm) compiling \<Rightarrow> 'sm File \<Rightarrow> ('ts, 'sm) compiling" where
  "pushJS c f =
     c\<lparr>project := (project c)\<lparr>previousOutputJS :=
          (case previousOutputJS (project c) of
             None \<Rightarrow> None
           | Some cached \<Rightarrow>
               Some (cached @ [asOutputFile f]))\<rparr>,
       outStreams := (outStreams c)\<lparr>jsStream := jsStream (outStreams c) @ [f]\<rparr>\<rparr>"

text \<open>
  \<open>emit\<close>. A map that is the empty string counts as absent (\<open>if (map)\<close>); the message
  on the console in that case is not modelled. \<open>upstream\<close> are the source maps of the
  input files that the new map is composed with.
\<close>

definition emit ::
  "('ts, 'sm) env \<Rightarrow> ('ts, 'sm) compiling \<Rightarrow> string \<Rightarrow> 'sm File
     \<Rightarrow> ('ts, 'sm) compiling + ('ts, 'sm) compiling" where
  "emit E c originalName f =
     (let s = project c;
          rawMap = map_of (sourcemaps c) (case out s of Some _ \<Rightarrow> [] | None \<Rightarrow> originalName)
      in if rawMap \<noteq> None \<and> rawMap \<noteq> Some [] then
           (let oldFiles = (case out s of Some _ \<Rightarrow> map fst (currentFiles s)
                                         | None \<Rightarrow> [originalName]);
                upstream = List.map_filter
                  (\<lambda>old. case map_of (currentFiles s) old of
                            None \<Rightarrow> None
                          | Some oldFile \<Rightarrow>
                              (case gulpFile oldFile of None \<Rightarrow> None | Some g \<Rightarrow> sourceMap g))
                  oldFiles
            in case composeSourceMap E (the rawMap) originalName upstream of
                 None \<Rightarrow> Inl c
               | Some composed \<Rightarrow> Inr (pushJS c (f\<lparr>sourceMap := Some composed\<rparr>)))
         else Inr (pushJS c f))"

text \<open>The key of an emitted file in the object \<open>done\<close>.\<close>

definition emitKey :: "('ts, 'sm) env \<Rightarrow> 'sm File \<Rightarrow> string" where
  "emitKey E g = normalizePath E (getOriginalName (path g))"

text \<open>
  \<open>sortedEmit\<close> with its loop over \<open>outputJS\<close> (the argument \<open>outs\<close>, which no emission
  changes). The object \<open>done\<close> is a set of names. \<open>program.getSourceFile\<close> may return
  \<open>undefined\<close>, and reading its \<open>referencedFiles\<close> then throws.
\<close>

function sortedEmit ::
  "('ts, 'sm) env \<Rightarrow> 'ts Program \<Rightarrow> 'sm File list
     \<Rightarrow> string set \<times> ('ts, 'sm) compiling \<Rightarrow> string \<Rightarrow> 'sm File
     \<Rightarrow> string set \<times> ('ts, 'sm) compiling + string set \<times> ('ts, 'sm) compiling"
and sortedEmitReferences ::
  "('ts, 'sm) env \<Rightarrow> 'ts Program \<Rightarrow> 'sm File list \<Rightarrow> string list
     \<Rightarrow> string set \<times> ('ts, 'sm) compiling \<Rightarrow> 'sm File list
     \<Rightarrow> string set \<times> ('ts, 'sm) compiling + string set \<times> ('ts, 'sm) compiling"
where
  "sortedEmit E prog outs st originalName f =
     (let name = normalizePath E originalName in
      if name \<in> fst st then Inr st
      else (case getSourceFile prog name of
              None \<Rightarrow> Inl (insert name (fst st), snd st)
            | Some tsFile \<Rightarrow>
                (case sortedEmitReferences E prog outs (referencedFiles E tsFile)
                        (insert name (fst st), snd st) outs of
                   Inl st' \<Rightarrow> Inl st'
                 | Inr st' \<Rightarrow>
                     (case emit E (snd st') name f of
                        Inl c \<Rightarrow> Inl (fst st', c)
                      | Inr c \<Rightarrow> Inr (fst st', c)))))"
| "sortedEmitReferences E prog outs references st [] = Inr st"
| "sortedEmitReferences E prog outs references st (other # rest) =
     (if getOriginalName (path other) \<in> set references
      then (case sortedEmit E prog outs st (getOriginalName (path other)) other of
              Inl st' \<Rightarrow> Inl st'
            | Inr st' \<Rightarrow> sortedEmitReferences E prog outs references st' rest)
      else sortedEmitReferences E prog outs references st rest)"
  by pat_completeness auto

lemma sortedEmit_done_grows:
  "sortedEmit_sortedEmitReferences_dom (Inl (E, prog, outs, st, originalName, f)) \<Longrightarrow>
     (\<forall>st'. sortedEmit E prog outs st originalName f = Inr st' \<longrightarrow> fst st \<subseteq> fst st')"
  "sortedEmit_sortedEmitReferences_dom (Inr (E, prog, outs, references, st, rest)) \<Longrightarrow>
     (\<forall>st'. sortedEmitReferences E prog outs references st rest = Inr st' \<longrightarrow> fst st \<subseteq> fst st')"
proof (induction rule: sortedEmit_sortedEmitReferences.pinduct)
  case (1 E prog outs st originalName f)
  then show ?case
    by (auto simp: sortedEmit.psimps Let_def split: option.splits sum.splits)
next
  case (2 E prog outs references st)
  then show ?case by (simp add: sortedEmitReferences.psimps)
next
  case (3 E prog outs references st other rest)
  then show ?case
    by (auto simp: sortedEmitReferences.psimps split: sum.splits if_splits) blast+
qed

termination sortedEmit
proof (relation "measures
    [case_sum (\<lambda>(E, prog, outs, st, originalName, f).
                 card ((emitKey E ` set outs \<union> {normalizePath E originalName}) - fst st))
              (\<lambda>(E, prog, outs, references, st, rest).
                 card ((emitKey E ` set outs \<union> emitKey E ` set rest) - fst st)),
     case_sum (\<lambda>_. 0) (\<lambda>(E, prog, outs, references, st, rest). Suc (length rest))]",
    goal_cases)
  case 1
  show ?case by simp
next
  case (2 E prog outs st originalName f x x2)
  have "(emitKey E ` set outs \<union> emitKey E ` set outs) - insert x (fst st)
          \<subset> (emitKey E ` set outs \<union> {x}) - fst st"
    using 2 by auto
  then have "card ((emitKey E ` set outs \<union> emitKey E ` set outs) - insert x (fst st))
          < card ((emitKey E ` set outs \<union> {x}) - fst st)"
    by (intro psubset_card_mono) auto
  with 2 show ?case by simp
next
  case (3 E prog outs references st other rest)
  have "card ((emitKey E ` set outs \<union> {normalizePath E (getOriginalName (path other))}) - fst st)
          \<le> card ((emitKey E ` set outs \<union> emitKey E ` set (other # rest)) - fst st)"
    by (intro card_mono) (auto simp: emitKey_def)
  then show ?case by auto
next
  case (4 E prog outs references st other rest b)
  then have "fst st \<subseteq> fst b"
    using sortedEmit_done_grows(1) by blast
  then have "card ((emitKey E ` set outs \<union> emitKey E ` set rest) - fst b)
          \<le> card ((emitKey E ` set outs \<union> emitKey E ` set (other # rest)) - fst st)"
    by (intro card_mono) auto
  then show ?case by auto
next
  case (5 E prog outs references st other rest)
  have "card ((emitKey E ` set outs \<union> emitKey E ` set rest) - fst st)
          \<le> card ((emitKey E ` set outs \<union> emitKey E ` set (other # rest)) - fst st)"
    by (intro card_mono) auto
  then show ?case by auto
qed

declare sortedEmit.simps [simp del]

text \<open>
  The branch of \<open>compile\<close> for \<open>sortOutput\<close>: the object \<open>done\<close> starts empty, and
  \<open>sortedEmit\<close> is called for each file of \<open>outputJS\<close> in turn.
\<close>

definition emitSorted ::
  "('ts, 'sm) env \<Rightarrow> 'ts Program \<Rightarrow> ('ts, 'sm) compiling
     \<Rightarrow> string set \<times> ('ts, 'sm) compiling + string set \<times> ('ts, 'sm) compiling" where
  "emitSorted E prog c =
     forEach (\<lambda>st f. sortedEmit E prog (outputJS c) st (getOriginalName (path f)) f)
       ({}, c) (outputJS c)"

text \<open>
  The beginning of \<open>compile\<close>: the roots that pass the filter, the files handed to the
  host and the program created from them. \<open>None\<close> is the failure of
  \<open>this.currentFiles[0].file.cwd\<close> on a unit without a file.
\<close>

definition createdProgram :: "('ts, 'sm) env \<Rightarrow> ('ts, 'sm) Project \<Rightarrow> 'ts Program option" where
  "createdProgram E s =
     (let roots = filter (\<lambda>entry. case filterSettings s of None \<Rightarrow> True
                                    | Some match \<Rightarrow> match (fst entry)) (currentFiles s);
          files = foldl (\<lambda>m entry. AList.update (fst entry) (snd entry) m)
                    (map (\<lambda>entry. (fst entry, Some (snd entry))) roots) (additionalFiles s);
          rootFilenames = map (\<lambda>entry. originalFilename (snd entry)) roots;
          hostCwd = (case map_of (currentFiles s) ''0'' of
                       None \<Rightarrow> Some []
                     | Some first \<Rightarrow> map_option cwd (gulpFile first))
      in map_option
           (\<lambda>dir. createProgram E rootFilenames dir files (\<not> noExternalResolve s)) hostCwd)"

text \<open>
  \<open>compile\<close>. The fields \<open>host\<close> and \<open>program\<close>, which only error reporting and the
  filter read, are local here; \<open>reported\<close> receives the diagnostics themselves, not their
  formatted messages. \<open>Inl\<close> is the state when an exception leaves the function.
\<close>

definition compile ::
  "('ts, 'sm) env \<Rightarrow> ('ts, 'sm) Project \<Rightarrow> 'sm streams
     \<Rightarrow> ('ts, 'sm) Project \<times> 'sm streams + ('ts, 'sm) Project \<times> 'sm streams" where
  "compile E s io0 =
     (case createdProgram E s of
        None \<Rightarrow> Inl (s, io0)
      | Some prog \<Rightarrow>
          (let io1 = io0\<lparr>reported := reported io0 @ errors prog\<rparr>;
               s1 = (if errors prog \<noteq> []
                     then s\<lparr>previousOutputJS := None, previousOutputDts := None\<rparr>
                     else s\<lparr>previousOutputJS := Some [], previousOutputDts := Some []\<rparr>)
           in case forEach (reconcile E)
                     \<lparr>project = s1, outStreams = io1, outputJS = [], sourcemaps = []\<rparr>
                     (hostOutput prog) of
                Inl c \<Rightarrow> Inl (project c, outStreams c)
              | Inr c \<Rightarrow>
                  if sortOutput s then
                    (case emitSorted E prog c of
                       Inl st \<Rightarrow> Inl (project (snd st), outStreams (snd st))
                     | Inr st \<Rightarrow> Inr (project (snd st), outStreams (snd st)))
                  else
                    (case forEach
                            (\<lambda>c' f. emit E c' (normalizePath E (getOriginalName (path f))) f)
                            c (outputJS c) of
                       Inl c' \<Rightarrow> Inl (project c', outStreams c')
                     | Inr c' \<Rightarrow> Inr (project c', outStreams c'))))"

section \<open>Class Project: resolving references\<close>

text \<open>
  A resolution in progress: the project, the session's counter \<open>tasks\<close>, the number of
  times the session's callback has run, every call of \<open>fs.readFile\<close> made so far
  (\<open>issued\<close>, as the pair of \<open>ref\<close> and \<open>normalizedRef\<close> its callback holds) and the calls
  whose callback has not run yet (\<open>pending\<close>).
\<close>

record ('ts, 'sm) resolving =
  resolved :: "('ts, 'sm) Project"
  tasks :: int
  callbacks :: nat
  issued :: "(string \<times> string) list"
  pending :: "(string \<times> string) list"

text \<open>One round of the loop of \<open>resolve\<close>, up to the call of \<open>fs.readFile\<close>.\<close>

definition resolveReference ::
  "('ts, 'sm) env \<Rightarrow> ('ts, 'sm) resolving \<Rightarrow> string \<Rightarrow> ('ts, 'sm) resolving" where
  "resolveReference E r ref =
     (let normalizedRef = normalizePath E ref; s = resolved r in
      if normalizedRef \<notin> fst ` set (currentFiles s)
         \<and> normalizedRef \<notin> fst ` set (additionalFiles s)
      then r\<lparr>tasks := tasks r + 1,
             resolved := s\<lparr>additionalFiles :=
               AList.update normalizedRef unresolvedFile (additionalFiles s)\<rparr>,
             issued := issued r @ [(ref, normalizedRef)],
             pending := pending r @ [(ref, normalizedRef)]\<rparr>
      else r)"

definition resolve ::
  "('ts, 'sm) env \<Rightarrow> ('ts, 'sm) resolving \<Rightarrow> ('ts, 'sm) FileData \<Rightarrow> ('ts, 'sm) resolving" where
  "resolve E r fileData =
     foldl (resolveReference E) r
       (map (\<lambda>item. path_join E (path_dirname E (getFileName E (ts fileData))) item)
          (referencedFiles E (ts fileData)))"

definition resolveAll :: "('ts, 'sm) env \<Rightarrow> ('ts, 'sm) Project \<Rightarrow> ('ts, 'sm) resolving" where
  "resolveAll E s =
     (if noExternalResolve s
      then \<lparr>resolved = s, tasks = 0, callbacks = 1, issued = [], pending = []\<rparr>
      else (let r = foldl (\<lambda>r entry. resolve E r (snd entry))
                      \<lparr>resolved = s, tasks = 0, callbacks = 0, issued = [], pending = []\<rparr>
                      (currentFiles s)
            in if tasks r = 0 then r\<lparr>callbacks := callbacks r + 1\<rparr> else r))"

text \<open>The callback of the \<open>i\<close>-th pending \<open>fs.readFile\<close> runs.\<close>

definition readCompleted ::
  "('ts, 'sm) env \<Rightarrow> ('ts, 'sm) resolving \<Rightarrow> nat \<Rightarrow> ('ts, 'sm) resolving" where
  "readCompleted E r i =
     (let ref = fst (pending r ! i); normalizedRef = snd (pending r ! i);
          r1 = r\<lparr>pending := take i (pending r) @ drop (Suc i) (pending r)\<rparr>;
          r2 = (case readFile E ref of
                  None \<Rightarrow> r1
                | Some data \<Rightarrow>
                    (let fileData = getFileData E (resolved r1) ref data
                     in resolve E
                          (r1\<lparr>resolved := (resolved r1)\<lparr>additionalFiles :=
                                 AList.update normalizedRef (Some fileData)
                                   (additionalFiles (resolved r1))\<rparr>\<rparr>)
                          fileData));
          r3 = r2\<lparr>tasks := tasks r2 - 1\<rparr>
      in if tasks r3 = 0 then r3\<lparr>callbacks := callbacks r3 + 1\<rparr> else r3)"

text \<open>
  The states of one run of \<open>resolveAll\<close>: Node runs the callbacks of the reads one at a
  time, in any order, after \<open>resolveAll\<close> has returned.
\<close>

inductive resolution :: "('ts, 'sm) env \<Rightarrow> ('ts, 'sm) Project \<Rightarrow> ('ts, 'sm) resolving \<Rightarrow> bool"
  for E :: "('ts, 'sm) env" and s :: "('ts, 'sm) Project" where
  started: "resolution E s (resolveAll E s)"
| completed: "resolution E s r \<Longrightarrow> i < length (pending r) \<Longrightarrow> resolution E s (readCompleted E r i)"


section \<open>Sample environments\<close>

text \<open>
  Concrete collaborators for running the model on sample inputs. \<open>asciiLower\<close> is
  \<open>toLowerCase\<close> on ASCII text. \<open>squeezeSlashes\<close> is what POSIX \<open>path.normalize\<close> does to a
  non-empty path that has no \<open>.\<close> or \<open>..\<close> segment: runs of slashes become one slash.
  \<open>joinPath\<close> is \<open>path.join\<close> for two such paths.
\<close>

definition asciiLower :: "string \<Rightarrow> string" where
  "asciiLower s =
     map (\<lambda>c. if 65 \<le> (of_char c :: nat) \<and> (of_char c :: nat) \<le> 90
              then char_of (of_char c + (32 :: nat)) else c) s"

fun squeezeSlashes :: "string \<Rightarrow> string" where
  "squeezeSlashes (a # b # rest) =
     (if a = CHR ''/'' \<and> b = CHR ''/'' then squeezeSlashes (b # rest)
      else a # squeezeSlashes (b # rest))"
| "squeezeSlashes s = s"

definition joinPath :: "string \<Rightarrow> string \<Rightarrow> string" where
  "joinPath a b = squeezeSlashes (a @ ''/'' @ b)"

fun dirName :: "string \<Rightarrow> string" where
  "dirName p = (let i = lastIndexOf p CHR ''/'' (int (length p)) in
                if i = - 1 then ''.'' else if i = 0 then ''/'' else substring0 p i)"

text \<open>
  In a sample environment a parsed source file is its name paired with the names it
  references, which the table \<open>refs\<close> gives by file name; \<open>disk\<close> is the file system and
  \<open>prog\<close> the result of the compiler. Source maps are strings, composed by concatenation.
\<close>

definition sampleEnv ::
  "(string \<Rightarrow> string list) \<Rightarrow> (string \<Rightarrow> string option) \<Rightarrow> (string \<times> string list) Program
     \<Rightarrow> (string \<times> string list, string) env" where
  "sampleEnv refs disk prog =
     \<lparr>path_normalize = squeezeSlashes, path_join = joinPath, path_dirname = dirName,
      toLowerCase = asciiLower,
      createSourceFile = (\<lambda>name text v. (name, refs name)),
      getFileName = fst, referencedFiles = snd, readFile = disk,
      createProgram = (\<lambda>roots dir files externalResolve. prog),
      composeSourceMap = (\<lambda>m name upstream. Some (concat (m # upstream)))\<rparr>"

text \<open>A project as its constructor leaves it, and streams nothing was pushed to.\<close>

definition newProject :: "string option \<Rightarrow> bool \<Rightarrow> bool \<Rightarrow> ('ts, 'sm) Project" where
  "newProject outName noExternal sortOut =
     \<lparr>previousFiles = [], currentFiles = [], additionalFiles = [], firstFile = None,
      isFileChanged = False, previousOutputJS = None, previousOutputDts = None,
      noExternalResolve = noExternal, sortOutput = sortOut, version = 0, out = outName,
      filterSettings = None\<rparr>"

definition noOutput :: "'sm streams" where
  "noOutput = \<lparr>jsStream = [], declStream = [], reported = []\<rparr>"

definition gulpSource :: "string \<Rightarrow> string \<Rightarrow> string File" where
  \<comment> \<open>a source file of directory \<open>/b\<close>\<close>
  "gulpSource name text = \<lparr>path = name, contents = text, cwd = ''/'', base = ''/b/'', sourceMap = None\<rparr>"

definition emptyProgram :: "(string \<times> string list) Program" where
  "emptyProgram = \<lparr>errors = [], hostOutput = [], getSourceFile = (\<lambda>name. None)\<rparr>"


text \<open>
  A program for the single source \<open>/b/A.ts\<close>: a script that ends with the source map
  comment, its map and its declarations. \<open>failingProgram\<close> reports a diagnostic as well.
  \<open>bundleProgram\<close> is the output of a compilation with \<open>out\<close> set to \<open>out.js\<close>.
\<close>

definition scriptProgram :: "(string \<times> string list) Program" where
  "scriptProgram =
     \<lparr>errors = [],
      hostOutput = [(''/b/A.js'', ''var a;\<newline>//# sourceMappingURL=A.js.map''),
                    (''/b/A.js.map'', ''{map}''),
                    (''/b/A.d.ts'', ''declare var a;'')],
      getSourceFile = (\<lambda>name. if name = ''/b/a.ts'' then Some (''/b/A.ts'', []) else None)\<rparr>"

definition failingProgram :: "(string \<times> string list) Program" where
  "failingProgram = scriptProgram\<lparr>errors := [\<lparr>code = 2304, messageText = ''Cannot find name''\<rparr>]\<rparr>"

definition bundleProgram :: "(string \<times> string list) Program" where
  "bundleProgram =
     \<lparr>errors = [],
      hostOutput = [(''out.js'', ''var a;\<newline>//# sourceMappingURL=out.js.map''),
                    (''out.js.map'', ''{map}'')],
      getSourceFile = (\<lambda>name. None)\<rparr>"

definition envOf :: "(string \<times> string list) Program \<Rightarrow> (string \<times> string list, string) env" where
  "envOf prog = sampleEnv (\<lambda>name. []) (\<lambda>name. None) prog"

text \<open>
  A chain of references: \<open>/b/A.ts\<close> names \<open>b.ts\<close>, which is on the disk and names \<open>c.ts\<close>,
  which is not. \<open>chainRun\<close> resolves the project that has ingested \<open>/b/A.ts\<close> and lets the
  two reads complete.
\<close>

definition chainEnv :: "(string \<times> string list, string) env" where
  "chainEnv =
     sampleEnv (\<lambda>name. if name = ''/b/A.ts'' then [''b.ts'']
                        else if name = ''/b/b.ts'' then [''c.ts''] else [])
       (\<lambda>p. if p = ''/b/b.ts'' then Some ''var b;'' else None)
       emptyProgram"

definition chainProject :: "(string \<times> string list, string) Project" where
  "chainProject =
     addFile chainEnv (reset (newProject None False False)) (gulpSource ''/b/A.ts'' ''var a;'')"

definition chainRun :: "(string \<times> string list, string) resolving" where
  "chainRun = readCompleted chainEnv (readCompleted chainEnv (resolveAll chainEnv chainProject) 0) 0"







section \<open>Predicates of the statements\<close>


text \<open>The condition of \<open>lazyCompile\<close>.\<close>

definition eligible :: "('ts, 'sm) Project \<Rightarrow> bool" where
  "eligible s = (\<not> isFileChanged s \<and> length (currentFiles s) = length (previousFiles s)
                 \<and> previousOutputJS s \<noteq> None \<and> previousOutputDts s \<noteq> None)"

text \<open>
  The caches of a compilation in progress agree with what it has pushed since the
  streams had \<open>nj\<close> and \<open>nd\<close> files: they hold the pushed files when the program has no
  diagnostics (\<open>ok\<close>), and are absent otherwise.
\<close>

definition cacheHolds :: "nat \<Rightarrow> nat \<Rightarrow> bool \<Rightarrow> ('ts, 'sm) compiling \<Rightarrow> bool" where
  "cacheHolds nj nd ok c =
     (if ok
      then previousOutputJS (project c)
             = Some (map asOutputFile (drop nj (jsStream (outStreams c))))
           \<and> previousOutputDts (project c)
             = Some (map asOutputFile (drop nd (declStream (outStreams c))))
           \<and> nj \<le> length (jsStream (outStreams c)) \<and> nd \<le> length (declStream (outStreams c))
      else previousOutputJS (project c) = None \<and> previousOutputDts (project c) = None)"

text \<open>A script whose contents are a host output file stripped of its last line.\<close>

definition isTrimmed :: "'ts Program \<Rightarrow> 'sm File \<Rightarrow> bool" where
  "isTrimmed prog f =
     (\<exists>e \<in> set (hostOutput prog). endsWith (fst e) ''.js''
                                 \<and> contents f = removeSourceMapComment (snd e))"


text \<open>
  The bookkeeping of a resolution for the project \<open>s\<close> it started from: the counter is
  the number of pending reads plus \<open>k\<close>, the inputs are untouched and share no key with
  the additional files, no normalized path was read twice, every path read has its slot
  among the additional files, and every pending read was issued.
\<close>

definition consistent :: "int \<Rightarrow> ('ts, 'sm) Project \<Rightarrow> ('ts, 'sm) resolving \<Rightarrow> bool" where
  "consistent k s r =
     (tasks r = int (length (pending r)) + k
      \<and> currentFiles (resolved r) = currentFiles s
      \<and> fst ` set (currentFiles s) \<inter> fst ` set (additionalFiles (resolved r)) = {}
      \<and> distinct (map snd (issued r))
      \<and> snd ` set (issued r) \<subseteq> fst ` set (additionalFiles (resolved r))
      \<and> set (pending r) \<subseteq> set (issued r))"








section \<open>Properties of the string functions\<close>


lemma lastIndexFrom_none:
  "(\<forall>j. j \<le> k \<and> j < length s \<longrightarrow> s ! j \<noteq> c) \<Longrightarrow> lastIndexFrom s c k = - 1"
  by (induction k) auto


lemma removeSourceMapComment_shape:
  "\<exists>n. removeSourceMapComment c = take n c @ ''\<newline>''"
  by (auto simp: removeSourceMapComment_def substring0_def Let_def)

lemma removeSourceMapComment_single_line:
  assumes "\<forall>i. i + 2 \<le> length c \<longrightarrow> c ! i \<noteq> CHR 0x0A"
  shows "removeSourceMapComment c = ''\<newline>''"
proof (cases "2 \<le> length c")
  case True
  then have k: "nat (min (max (int (length c) - 2) 0) (int (length c) - 1)) = length c - 2"
    by auto
  have "lastIndexFrom c CHR 0x0A (length c - 2) = - 1"
    using assms True by (intro lastIndexFrom_none) auto
  then show ?thesis
    unfolding removeSourceMapComment_def lastIndexOf_def k substring0_def Let_def
    by simp
next
  case False
  then have k: "nat (min (max (int (length c) - 2) 0) (int (length c) - 1)) = 0"
    by auto
  have "lastIndexFrom c CHR 0x0A 0 = 0 \<or> lastIndexFrom c CHR 0x0A 0 = - 1" by simp
  then show ?thesis
    unfolding removeSourceMapComment_def lastIndexOf_def k substring0_def Let_def
    by auto
qed


section \<open>The sample collaborators\<close>







lemma normalizePath_sampleEnv:
  "normalizePath (sampleEnv refs disk prog) p = asciiLower (squeezeSlashes p)"
  by (simp add: normalizePath_def sampleEnv_def)

lemma sample_key: "normalizePath (envOf prog) ''/b/A.ts'' = ''/b/a.ts''"
proof -
  have "asciiLower (squeezeSlashes ''/b/A.ts'') = ''/b/a.ts''"
    by code_simp
  then show ?thesis
    by (simp only: envOf_def normalizePath_sampleEnv)
qed

lemma noOutput_streams:
  "jsStream noOutput = []" "declStream noOutput = []" "reported noOutput = []"
  by (simp_all add: noOutput_def)


section \<open>Generations\<close>

lemma addFile_frame:
  "previousFiles (addFile E s f) = previousFiles s"
  "previousOutputJS (addFile E s f) = previousOutputJS s"
  "previousOutputDts (addFile E s f) = previousOutputDts s"
  "additionalFiles (addFile E s f) = additionalFiles s"
  "out (addFile E s f) = out s"
  by (simp_all add: addFile_def Let_def)

lemma ingest_frame:
  "previousFiles (foldl (addFile E) s fs) = previousFiles s"
  "previousOutputJS (foldl (addFile E) s fs) = previousOutputJS s"
  "previousOutputDts (foldl (addFile E) s fs) = previousOutputDts s"
  "additionalFiles (foldl (addFile E) s fs) = additionalFiles s"
  "out (foldl (addFile E) s fs) = out s"
  by (induction fs arbitrary: s) (simp_all add: addFile_frame)





section \<open>Replay\<close>








lemma lazyCompile_not_eligible:
  "\<not> eligible s \<Longrightarrow> lazyCompile E s io = Inr (False, io)"
  by (auto simp: eligible_def lazyCompile_def split: option.splits)





section \<open>Invariants of compilation\<close>

lemma final_simps [simp]: "final (Inl a) = a" "final (Inr a) = a"
  by (simp_all add: final_def)

lemma forEach_invariant:
  assumes "\<And>a x. x \<in> set xs \<Longrightarrow> P a \<Longrightarrow> P (final (body a x))" and "P a"
  shows "P (final (forEach body a xs))"
  using assms
proof (induction xs arbitrary: a)
  case Nil
  then show ?case by simp
next
  case (Cons x xs)
  from Cons.prems have step: "P (final (body a x))" by simp
  show ?case
  proof (cases "body a x")
    case (Inl a')
    with step show ?thesis by simp
  next
    case (Inr a')
    with step have "P a'" by simp
    then have "P (final (forEach body a' xs))"
      using Cons.prems(1) by (intro Cons.IH) auto
    with Inr show ?thesis by simp
  qed
qed


lemma sortedEmit_invariant:
  "(\<And>c n g. P c \<Longrightarrow> Q g \<Longrightarrow> P (final (emit E c n g))) \<Longrightarrow> \<forall>g \<in> set outs. Q g \<Longrightarrow>
     Q f \<Longrightarrow> P (snd st) \<Longrightarrow> P (snd (final (sortedEmit E prog outs st n f)))"
  "(\<And>c n g. P c \<Longrightarrow> Q g \<Longrightarrow> P (final (emit E c n g))) \<Longrightarrow> \<forall>g \<in> set outs. Q g \<Longrightarrow>
     \<forall>g \<in> set rest. Q g \<Longrightarrow> P (snd st) \<Longrightarrow>
     P (snd (final (sortedEmitReferences E prog outs references st rest)))"
proof (induction E prog outs st n f and E prog outs references st rest
    rule: sortedEmit_sortedEmitReferences.induct)
  case (1 E prog outs st originalName f)
  let ?name = "normalizePath E originalName"
  show ?case
  proof (cases "?name \<in> fst st")
    case True
    with 1 show ?thesis by (subst sortedEmit.simps) simp
  next
    case False
    show ?thesis
    proof (cases "getSourceFile prog ?name")
      case None
      with False 1 show ?thesis by (subst sortedEmit.simps) simp
    next
      case (Some tsFile)
      let ?r = "sortedEmitReferences E prog outs (referencedFiles E tsFile)
                  (insert ?name (fst st), snd st) outs"
      have refs: "P (snd (final ?r))"
        using "1.IH" [OF refl False Some "1.prems"(1,2)] "1.prems" by simp
      show ?thesis
      proof (cases ?r)
        case (Inl st')
        with refs False Some show ?thesis by (subst sortedEmit.simps) simp
      next
        case (Inr st')
        with refs have "P (snd st')" by simp
        then have "P (final (emit E (snd st') ?name f))"
          using "1.prems" by blast
        with Inr False Some show ?thesis
          by (subst sortedEmit.simps) (auto split: sum.splits)
      qed
    qed
  qed
next
  case (2 E prog outs references st)
  then show ?case by simp
next
  case (3 E prog outs references st other rest)
  show ?case
  proof (cases "getOriginalName (path other) \<in> set references")
    case False
    with 3 show ?thesis by simp
  next
    case True
    let ?r = "sortedEmit E prog outs st (getOriginalName (path other)) other"
    have one: "P (snd (final ?r))"
      using "3.IH"(1) [OF True "3.prems"(1,2)] "3.prems" by simp
    show ?thesis
    proof (cases ?r)
      case (Inl st')
      with one True show ?thesis by simp
    next
      case (Inr st')
      with one have "P (snd st')" by simp
      then have "P (snd (final (sortedEmitReferences E prog outs references st' rest)))"
        using "3.IH"(2) [OF True Inr "3.prems"(1,2)] "3.prems" by simp
      with Inr True show ?thesis by simp
    qed
  qed
qed

lemma emit_cases:
  "final (emit E c n f) = c \<or> (\<exists>m. final (emit E c n f) = pushJS c (f\<lparr>sourceMap := m\<rparr>))"
proof (cases "emit E c n f")
  case (Inl c')
  then have "c' = c"
    by (simp add: emit_def Let_def split: if_splits option.splits)
  with Inl show ?thesis by simp
next
  case (Inr c')
  then have "c' = pushJS c f \<or> (\<exists>m. c' = pushJS c (f\<lparr>sourceMap := m\<rparr>))"
    by (auto simp: emit_def Let_def split: if_splits option.splits)
  moreover have "f = f\<lparr>sourceMap := sourceMap f\<rparr>" by simp
  ultimately show ?thesis using Inr by (metis final_simps(2))
qed

lemma reconcile_cases:
  obtains (same) "final (reconcile E c e) = c"
  | (script) g where "final (reconcile E c e) = c\<lparr>outputJS := outputJS c @ [g]\<rparr>"
      and "contents g = removeSourceMapComment (snd e)" and "endsWith (fst e) ''.js''"
  | (typing) f cached where
      "final (reconcile E c e)
         = c\<lparr>project := (project c)\<lparr>previousOutputDts := cached\<rparr>,
              outStreams := (outStreams c)\<lparr>declStream := declStream (outStreams c) @ [f]\<rparr>\<rparr>"
      and "cached = map_option (\<lambda>l. l @ [asOutputFile f]) (previousOutputDts (project c))"
  | (mapping) k where "final (reconcile E c e) = c\<lparr>sourcemaps := k\<rparr>"
proof (cases "findOriginal E (project c) (getOriginalName (normalizePath E (fst e)))")
  case (Inl u)
  then have "final (reconcile E c e) = c" by (simp add: reconcile_def Let_def)
  then show ?thesis by (rule same)
next
  case (Inr found)
  show ?thesis
  proof (cases found)
    case None
    with Inr have "final (reconcile E c e) = c" by (simp add: reconcile_def Let_def)
    then show ?thesis by (rule same)
  next
    case (Some pair)
    obtain original fullOriginalName where pair: "pair = (original, fullOriginalName)"
      by (cases pair)
    note found = Inr Some pair
    consider (js) "endsWith (fst e) ''.js''"
      | (dts) "\<not> endsWith (fst e) ''.js''" "endsWith (fst e) ''.d.ts''"
      | (map) "\<not> endsWith (fst e) ''.js''" "\<not> endsWith (fst e) ''.d.ts''" "endsWith (fst e) ''.map''"
      | (other) "\<not> endsWith (fst e) ''.js''" "\<not> endsWith (fst e) ''.d.ts''" "\<not> endsWith (fst e) ''.map''"
      by blast
    then show ?thesis
    proof cases
      case js
      show ?thesis
      proof (cases "gulpFile original")
        case None
        with found js have "final (reconcile E c e) = c" by (simp add: reconcile_def Let_def)
        then show ?thesis by (rule same)
      next
        case (Some g)
        let ?f = "\<lparr>path = withoutExtension fullOriginalName @ ''.js'',
                   contents = removeSourceMapComment (snd e), cwd = cwd g, base = base g,
                   sourceMap = None\<rparr>"
        have "final (reconcile E c e) = c\<lparr>outputJS := outputJS c @ [?f]\<rparr>"
          using found js Some by (simp add: reconcile_def Let_def)
        moreover have "contents ?f = removeSourceMapComment (snd e)" by simp
        ultimately show ?thesis using js by (rule script)
      qed
    next
      case dts
      show ?thesis
      proof (cases "gulpFile original")
        case None
        with found dts have "final (reconcile E c e) = c" by (simp add: reconcile_def Let_def)
        then show ?thesis by (rule same)
      next
        case (Some g)
        let ?f = "\<lparr>path = withoutExtension fullOriginalName @ ''.d.ts'',
                   contents = snd e, cwd = cwd g, base = base g, sourceMap = None\<rparr>"
        let ?cached = "map_option (\<lambda>l. l @ [asOutputFile ?f]) (previousOutputDts (project c))"
        have "final (reconcile E c e)
                = c\<lparr>project := (project c)\<lparr>previousOutputDts := ?cached\<rparr>,
                     outStreams := (outStreams c)\<lparr>declStream := declStream (outStreams c) @ [?f]\<rparr>\<rparr>"
          using found dts Some
          by (simp add: reconcile_def Let_def asOutputFile_def split: option.splits)
        then show ?thesis using refl by (rule typing)
      qed
    next
      case map
      with found have "final (reconcile E c e)
          = c\<lparr>sourcemaps := AList.update
                (case out (project c) of Some _ \<Rightarrow> []
                 | None \<Rightarrow> getOriginalName (normalizePath E (fst e))) (snd e) (sourcemaps c)\<rparr>"
        by (simp add: reconcile_def Let_def)
      then show ?thesis by (rule mapping)
    next
      case other
      with found have "final (reconcile E c e) = c" by (simp add: reconcile_def Let_def)
      then show ?thesis by (rule same)
    qed
  qed
qed


lemma pushJS_cacheHolds: "cacheHolds nj nd ok c \<Longrightarrow> cacheHolds nj nd ok (pushJS c f)"
  by (auto simp: cacheHolds_def pushJS_def split: if_splits)

lemma emit_cacheHolds: "cacheHolds nj nd ok c \<Longrightarrow> cacheHolds nj nd ok (final (emit E c n f))"
  using emit_cases [of E c n f] by (auto simp: pushJS_cacheHolds)

lemma reconcile_cacheHolds:
  "cacheHolds nj nd ok c \<Longrightarrow> cacheHolds nj nd ok (final (reconcile E c e))"
  by (cases rule: reconcile_cases [of E c e]) (auto simp: cacheHolds_def split: if_splits)


lemma isTrimmed_sourceMap [simp]: "isTrimmed prog (f\<lparr>sourceMap := m\<rparr>) = isTrimmed prog f"
  by (simp add: isTrimmed_def)




lemma compile_unfold:
  assumes "createdProgram E s = Some prog"
  shows "compile E s io =
     (case forEach (reconcile E)
             \<lparr>project = (if errors prog \<noteq> []
                          then s\<lparr>previousOutputJS := None, previousOutputDts := None\<rparr>
                          else s\<lparr>previousOutputJS := Some [], previousOutputDts := Some []\<rparr>),
              outStreams = io\<lparr>reported := reported io @ errors prog\<rparr>,
              outputJS = [], sourcemaps = []\<rparr>
             (hostOutput prog) of
        Inl c \<Rightarrow> Inl (project c, outStreams c)
      | Inr c \<Rightarrow>
          if sortOutput s then
            (case forEach (\<lambda>st f. sortedEmit E prog (outputJS c) st (getOriginalName (path f)) f)
                    ({}, c) (outputJS c) of
               Inl st \<Rightarrow> Inl (project (snd st), outStreams (snd st))
             | Inr st \<Rightarrow> Inr (project (snd st), outStreams (snd st)))
          else
            (case forEach (\<lambda>c' f. emit E c' (normalizePath E (getOriginalName (path f))) f)
                    c (outputJS c) of
               Inl c' \<Rightarrow> Inl (project c', outStreams c')
             | Inr c' \<Rightarrow> Inr (project c', outStreams c')))"
  unfolding compile_def Let_def assms option.case emitSorted_def ..


text \<open>What holds after \<open>compile\<close> once it has created the program.\<close>

lemma compile_invariant:
  assumes prog: "createdProgram E s = Some prog"
    and start: "\<And>s1. previousOutputJS s1 = (if errors prog \<noteq> [] then None else Some []) \<Longrightarrow>
                  previousOutputDts s1 = (if errors prog \<noteq> [] then None else Some []) \<Longrightarrow>
                  P \<lparr>project = s1, outStreams = io\<lparr>reported := reported io @ errors prog\<rparr>,
                     outputJS = [], sourcemaps = []\<rparr>"
    and rec: "\<And>c e. e \<in> set (hostOutput prog) \<Longrightarrow> P c \<Longrightarrow> P (final (reconcile E c e))"
    and em: "\<And>c n g. P c \<Longrightarrow> Q g \<Longrightarrow> P (final (emit E c n g))"
    and q: "\<And>c. P c \<Longrightarrow> \<forall>g \<in> set (outputJS c). Q g"
  shows "\<exists>c. P c \<and> final (compile E s io) = (project c, outStreams c)"
proof -
  define s1 where "s1 = (if errors prog \<noteq> []
             then s\<lparr>previousOutputJS := None, previousOutputDts := None\<rparr>
             else s\<lparr>previousOutputJS := Some [], previousOutputDts := Some []\<rparr>)"
  define c0 where "c0 = \<lparr>project = s1, outStreams = io\<lparr>reported := reported io @ errors prog\<rparr>,
              outputJS = [], sourcemaps = ([] :: string Map)\<rparr>"
  define r where "r = forEach (reconcile E) c0 (hostOutput prog)"
  note u = compile_unfold [OF prog, of io, folded s1_def, folded c0_def, folded r_def]
  have "P c0" unfolding c0_def by (rule start) (simp_all add: s1_def)
  then have r: "P (final r)"
    unfolding r_def using rec by (rule forEach_invariant [where P = P, rotated]) blast
  show ?thesis
  proof (cases r)
    case (Inl c)
    with r have "P c" by simp
    moreover have "final (compile E s io) = (project c, outStreams c)"
      unfolding u Inl by simp
    ultimately show ?thesis by blast
  next
    case (Inr c)
    with r have c: "P c" by simp
    show ?thesis
    proof (cases "sortOutput s")
      case True
      define e where "e = forEach (\<lambda>st f. sortedEmit E prog (outputJS c) st (getOriginalName (path f)) f)
                  ({}, c) (outputJS c)"
      have "P (snd (final e))"
        unfolding e_def
      proof (rule forEach_invariant [where P = "\<lambda>st. P (snd st)"])
        fix st :: "string set \<times> ('a, 'b) compiling" and f
        assume "f \<in> set (outputJS c)" and "P (snd st)"
        then show "P (snd (final (sortedEmit E prog (outputJS c) st (getOriginalName (path f)) f)))"
          using sortedEmit_invariant(1) [of P Q E "outputJS c" f st] em q [OF c] by blast
      qed (use c in simp)
      moreover have "final (compile E s io) = (project (snd (final e)), outStreams (snd (final e)))"
        unfolding u Inr using True by (cases e) (simp_all add: e_def [symmetric])
      ultimately show ?thesis by blast
    next
      case False
      define e where "e = forEach (\<lambda>c' f. emit E c' (normalizePath E (getOriginalName (path f))) f)
                  c (outputJS c)"
      have "P (final e)"
        unfolding e_def using c
      proof (rule forEach_invariant [where P = P, rotated])
        fix c' f
        assume "f \<in> set (outputJS c)" and "P c'"
        then show "P (final (emit E c' (normalizePath E (getOriginalName (path f))) f))"
          using em q [OF c] by blast
      qed
      moreover have "final (compile E s io) = (project (final e), outStreams (final e))"
        unfolding u Inr using False by (cases e) (simp_all add: e_def [symmetric])
      ultimately show ?thesis by blast
    qed
  qed
qed

lemma createdProgram_envOf:
  "map_of (currentFiles s) ''0'' = None \<Longrightarrow> createdProgram (envOf prog) s = Some prog"
  by (simp add: createdProgram_def Let_def envOf_def sampleEnv_def)

lemma first_file_not_zero:
  "normalizePath E (path f) \<noteq> ''0'' \<Longrightarrow> map_of (currentFiles (addFile E (reset s0) f)) ''0'' = None"
  by (simp add: addFile_def reset_def Let_def update_conv')

lemma sample_created:
  "createdProgram (envOf prog)
     (addFile (envOf prog) (reset s0) (gulpSource ''/b/A.ts'' text)) = Some prog"
proof -
  have "normalizePath (envOf prog) (path (gulpSource ''/b/A.ts'' text)) = ''/b/a.ts''"
    by (simp add: sample_key gulpSource_def)
  then show ?thesis
    by (intro createdProgram_envOf first_file_not_zero) simp
qed


section \<open>Invariants of resolution\<close>

lemma consistentD:
  assumes "consistent k s r"
  shows "tasks r = int (length (pending r)) + k"
    and "currentFiles (resolved r) = currentFiles s"
    and "fst ` set (currentFiles s) \<inter> fst ` set (additionalFiles (resolved r)) = {}"
    and "distinct (map snd (issued r))"
    and "snd ` set (issued r) \<subseteq> fst ` set (additionalFiles (resolved r))"
    and "set (pending r) \<subseteq> set (issued r)"
  using assms unfolding consistent_def by blast+

lemma resolveReference_callbacks: "callbacks (resolveReference E r ref) = callbacks r"
  by (simp add: resolveReference_def Let_def)

lemma resolve_callbacks: "callbacks (resolve E r fd) = callbacks r"
proof -
  have "callbacks (foldl (resolveReference E) r refs) = callbacks r" for refs
    by (induction refs arbitrary: r) (simp_all add: resolveReference_callbacks)
  then show ?thesis by (simp add: resolve_def)
qed

lemma resolveReference_consistent:
  assumes "consistent k s r"
  shows "consistent k s (resolveReference E r ref)"
proof (cases "normalizePath E ref \<notin> fst ` set (currentFiles (resolved r))
              \<and> normalizePath E ref \<notin> fst ` set (additionalFiles (resolved r))")
  case False
  then have "resolveReference E r ref = r"
    by (auto simp: resolveReference_def Let_def)
  with assms show ?thesis by simp
next
  case True
  let ?k = "normalizePath E ref"
  from True have r': "resolveReference E r ref
      = r\<lparr>tasks := tasks r + 1,
           resolved := (resolved r)\<lparr>additionalFiles :=
             AList.update ?k unresolvedFile (additionalFiles (resolved r))\<rparr>,
           issued := issued r @ [(ref, ?k)],
           pending := pending r @ [(ref, ?k)]\<rparr>"
    by (simp add: resolveReference_def Let_def)
  from assms True have fresh: "?k \<notin> snd ` set (issued r)"
    by (auto simp: consistent_def)
  note a = consistentD [OF assms]
  have "snd ` set (issued r @ [(ref, ?k)])
          \<subseteq> fst ` set (AList.update ?k unresolvedFile (additionalFiles (resolved r)))"
    using a(5) by (auto simp: dom_update)
  moreover have "fst ` set (currentFiles s)
          \<inter> fst ` set (AList.update ?k unresolvedFile (additionalFiles (resolved r))) = {}"
    using a(3) True unfolding a(2) by (auto simp: dom_update)
  moreover have "distinct (map snd (issued r @ [(ref, ?k)]))"
    using a(4) fresh by simp
  moreover have "set (pending r @ [(ref, ?k)]) \<subseteq> set (issued r @ [(ref, ?k)])"
    using a(6) by auto
  ultimately show ?thesis
    unfolding r' consistent_def using a(1,2) by simp
qed

lemma consistent_callbacks [simp]:
  "consistent k s (r\<lparr>callbacks := c\<rparr>) = consistent k s r"
  by (simp add: consistent_def)

lemma resolve_consistent: "consistent k s r \<Longrightarrow> consistent k s (resolve E r fd)"
proof -
  have "consistent k s r \<Longrightarrow> consistent k s (foldl (resolveReference E) r refs)" for refs
    by (induction refs arbitrary: r) (simp_all add: resolveReference_consistent)
  then show "consistent k s r \<Longrightarrow> consistent k s (resolve E r fd)"
    by (simp add: resolve_def)
qed

lemma resolveAll_loop:
  "consistent 0 s r \<Longrightarrow> consistent 0 s (foldl (\<lambda>r entry. resolve E r (snd entry)) r entries)"
  "callbacks (foldl (\<lambda>r entry. resolve E r (snd entry)) r entries) = callbacks r"
  by (induction entries arbitrary: r) (simp_all add: resolve_consistent resolve_callbacks)

lemma resolveAll_consistent:
  assumes "fst ` set (currentFiles s) \<inter> fst ` set (additionalFiles s) = {}"
  shows "consistent 0 s (resolveAll E s)"
    and "callbacks (resolveAll E s) = (if tasks (resolveAll E s) = 0 then 1 else 0)"
proof -
  let ?init = "\<lparr>resolved = s, tasks = 0, callbacks = 0, issued = [], pending = []\<rparr>"
  let ?r = "foldl (\<lambda>r entry. resolve E r (snd entry)) ?init (currentFiles s)"
  have "consistent 0 s ?init" using assms by (simp add: consistent_def)
  then have r: "consistent 0 s ?r" by (rule resolveAll_loop(1))
  have c: "callbacks ?r = 0" by (simp add: resolveAll_loop)
  show "consistent 0 s (resolveAll E s)"
  proof (cases "noExternalResolve s")
    case True
    with assms show ?thesis by (simp add: resolveAll_def consistent_def)
  next
    case False
    with r show ?thesis by (simp add: resolveAll_def Let_def)
  qed
  show "callbacks (resolveAll E s) = (if tasks (resolveAll E s) = 0 then 1 else 0)"
    using c by (simp add: resolveAll_def Let_def)
qed

lemma readCompleted_consistent:
  assumes "consistent 0 s r" and "i < length (pending r)"
  shows "consistent 0 s (readCompleted E r i)"
proof -
  let ?ref = "fst (pending r ! i)" and ?k = "snd (pending r ! i)"
  let ?r1 = "r\<lparr>pending := take i (pending r) @ drop (Suc i) (pending r)\<rparr>"
  note a = consistentD [OF assms(1), simplified]
  have len: "length (take i (pending r) @ drop (Suc i) (pending r)) + 1 = length (pending r)"
    using assms(2) by simp
  have sub: "set (take i (pending r) @ drop (Suc i) (pending r)) \<subseteq> set (pending r)"
    by (auto dest: in_set_takeD in_set_dropD)
  have r1: "consistent 1 s ?r1"
    unfolding consistent_def using a len sub by auto
  have "pending r ! i \<in> set (pending r)"
    using assms(2) by simp
  then have key: "?k \<in> fst ` set (additionalFiles (resolved r))"
    using a(5,6) by (metis image_eqI subsetD)
  define r2 where "r2 = (case readFile E ?ref of
                  None \<Rightarrow> ?r1
                | Some data \<Rightarrow>
                    (let fileData = getFileData E (resolved ?r1) ?ref data
                     in resolve E
                          (?r1\<lparr>resolved := (resolved ?r1)\<lparr>additionalFiles :=
                                 AList.update ?k (Some fileData)
                                   (additionalFiles (resolved ?r1))\<rparr>\<rparr>)
                          fileData))"
  have r2: "consistent 1 s r2"
  proof (cases "readFile E ?ref")
    case None
    with r1 show ?thesis by (simp add: r2_def)
  next
    case (Some data)
    let ?fd = "getFileData E (resolved ?r1) ?ref data"
    have "fst ` set (AList.update ?k (Some ?fd) (additionalFiles (resolved r)))
            = fst ` set (additionalFiles (resolved r))"
      using key by (auto simp: dom_update)
    then have "consistent 1 s (?r1\<lparr>resolved := (resolved ?r1)\<lparr>additionalFiles :=
                   AList.update ?k (Some ?fd) (additionalFiles (resolved ?r1))\<rparr>\<rparr>)"
      using r1 by (simp add: consistent_def)
    then show ?thesis
      unfolding r2_def Some by (simp add: Let_def resolve_consistent)
  qed
  define r3 where "r3 = r2\<lparr>tasks := tasks r2 - 1\<rparr>"
  have "readCompleted E r i
          = (if tasks r3 = 0 then r3\<lparr>callbacks := callbacks r3 + 1\<rparr> else r3)"
    by (simp add: readCompleted_def Let_def r2_def r3_def)
  moreover have "consistent 0 s r3"
    using r2 by (simp add: consistent_def r3_def)
  ultimately show ?thesis by simp
qed

lemma readCompleted_callbacks:
  assumes "callbacks r = 0"
  shows "callbacks (readCompleted E r i) = (if tasks (readCompleted E r i) = 0 then 1 else 0)"
  using assms
  by (simp add: readCompleted_def Let_def resolve_callbacks split: option.splits)

lemma resolution_invariant:
  assumes "resolution E s r"
    and "fst ` set (currentFiles s) \<inter> fst ` set (additionalFiles s) = {}"
  shows "consistent 0 s r \<and> callbacks r = (if tasks r = 0 then 1 else 0)"
  using assms(1)
proof (induction rule: resolution.induct)
  case started
  show ?case using resolveAll_consistent [OF assms(2)] by simp
next
  case (completed r i)
  then have "tasks r \<noteq> 0"
    using consistentD(1) [of 0 s r] by auto
  with completed have "callbacks r = 0" by simp
  with completed show ?case
    by (simp add: readCompleted_consistent readCompleted_callbacks)
qed

lemma resolveReference_counter:
  "tasks (resolveReference E r ref) - int (length (pending (resolveReference E r ref)))
     = tasks r - int (length (pending r))"
  by (simp add: resolveReference_def Let_def)

lemma resolveReference_unread:
  "pending r = issued r \<Longrightarrow> pending (resolveReference E r ref) = issued (resolveReference E r ref)"
  by (simp add: resolveReference_def Let_def)

lemma resolve_counter:
  "tasks (resolve E r fd) - int (length (pending (resolve E r fd)))
     = tasks r - int (length (pending r))"
proof -
  have "tasks (foldl (resolveReference E) r refs)
          - int (length (pending (foldl (resolveReference E) r refs)))
        = tasks r - int (length (pending r))" for refs
    by (induction refs arbitrary: r) (simp_all add: resolveReference_counter)
  then show ?thesis by (simp add: resolve_def)
qed

lemma resolve_unread:
  "pending r = issued r \<Longrightarrow> pending (resolve E r fd) = issued (resolve E r fd)"
proof -
  have "pending r = issued r \<Longrightarrow>
        pending (foldl (resolveReference E) r refs) = issued (foldl (resolveReference E) r refs)"
    for refs
    by (induction refs arbitrary: r) (simp_all add: resolveReference_unread)
  then show "pending r = issued r \<Longrightarrow> pending (resolve E r fd) = issued (resolve E r fd)"
    by (simp add: resolve_def)
qed

lemma resolveAll_loop_counter:
  "tasks (foldl (\<lambda>r entry. resolve E r (snd entry)) r entries)
     - int (length (pending (foldl (\<lambda>r entry. resolve E r (snd entry)) r entries)))
   = tasks r - int (length (pending r))"
  by (induction entries arbitrary: r) (simp_all add: resolve_counter)

lemma resolveAll_loop_unread:
  "pending r = issued r \<Longrightarrow>
   pending (foldl (\<lambda>r entry. resolve E r (snd entry)) r entries)
     = issued (foldl (\<lambda>r entry. resolve E r (snd entry)) r entries)"
  by (induction entries arbitrary: r) (simp_all add: resolve_unread)

lemma resolveAll_counter:
  "tasks (resolveAll E s) = int (length (pending (resolveAll E s)))"
  "pending (resolveAll E s) = issued (resolveAll E s)"
  "callbacks (resolveAll E s) = (if tasks (resolveAll E s) = 0 then 1 else 0)"
proof -
  let ?init = "\<lparr>resolved = s, tasks = 0, callbacks = 0, issued = [], pending = []\<rparr>"
  let ?r = "foldl (\<lambda>r entry. resolve E r (snd entry)) ?init (currentFiles s)"
  have t: "tasks ?r = int (length (pending ?r))"
    using resolveAll_loop_counter [of E ?init "currentFiles s"] by simp
  have p: "pending ?r = issued ?r"
    by (rule resolveAll_loop_unread) simp
  have c: "callbacks ?r = 0" by (simp add: resolveAll_loop(2))
  show "tasks (resolveAll E s) = int (length (pending (resolveAll E s)))"
    using t by (simp add: resolveAll_def Let_def)
  show "pending (resolveAll E s) = issued (resolveAll E s)"
    using p by (simp add: resolveAll_def Let_def)
  show "callbacks (resolveAll E s) = (if tasks (resolveAll E s) = 0 then 1 else 0)"
    using c by (simp add: resolveAll_def Let_def)
qed

lemma readCompleted_counter:
  assumes "tasks r = int (length (pending r))" and "i < length (pending r)"
  shows "tasks (readCompleted E r i) = int (length (pending (readCompleted E r i)))"
proof -
  let ?r1 = "r\<lparr>pending := take i (pending r) @ drop (Suc i) (pending r)\<rparr>"
  have r1: "tasks ?r1 - int (length (pending ?r1)) = 1"
    using assms by simp
  define r2 where "r2 = (case readFile E (fst (pending r ! i)) of
                  None \<Rightarrow> ?r1
                | Some data \<Rightarrow>
                    (let fileData = getFileData E (resolved ?r1) (fst (pending r ! i)) data
                     in resolve E
                          (?r1\<lparr>resolved := (resolved ?r1)\<lparr>additionalFiles :=
                                 AList.update (snd (pending r ! i)) (Some fileData)
                                   (additionalFiles (resolved ?r1))\<rparr>\<rparr>)
                          fileData))"
  have "tasks r2 - int (length (pending r2)) = 1"
  proof (cases "readFile E (fst (pending r ! i))")
    case None
    with r1 show ?thesis by (simp add: r2_def)
  next
    case (Some data)
    show ?thesis
      unfolding r2_def Some using r1 by (simp add: Let_def resolve_counter)
  qed
  moreover have "tasks (readCompleted E r i) = tasks r2 - 1"
    "pending (readCompleted E r i) = pending r2"
    by (simp_all add: readCompleted_def Let_def r2_def)
  ultimately show ?thesis by simp
qed

lemma resolution_counter:
  "resolution E s r \<Longrightarrow>
     tasks r = int (length (pending r)) \<and> callbacks r = (if tasks r = 0 then 1 else 0)"
proof (induction rule: resolution.induct)
  case started
  show ?case using resolveAll_counter [of E s] by simp
next
  case (completed r i)
  then have "tasks r \<noteq> 0" by auto
  with completed have "callbacks r = 0" by simp
  with completed show ?case
    by (simp add: readCompleted_counter readCompleted_callbacks)
qed

section \<open>Invariants of the sorted emission\<close>




lemma emitKey_sourceMap [simp]: "emitKey E (f\<lparr>sourceMap := m\<rparr>) = emitKey E f"
  by (simp add: emitKey_def)












section \<open>Ingestion\<close>


section \<open>Removing the source map comment\<close>

text \<open>
  C9 as stated fails: the result can end with two line feeds. For the content
  \<open>a\n\nb\<close> the comment line \<open>b\<close> is cut off at the second line feed, and the line
  feed that is appended follows the first one.
\<close>

theorem removeSourceMapComment_blank_line:
  "removeSourceMapComment ''a\<newline>\<newline>b'' = ''a\<newline>\<newline>''
   \<and> endsWith (removeSourceMapComment ''a\<newline>\<newline>b'') ''\<newline>\<newline>''"
  by code_simp

text \<open>
  C9, amended. The result of \<open>removeSourceMapComment\<close> is a prefix of the content followed
  by one line feed, so it always ends with a line feed (the prefix may end with line
  feeds of its own). When the content has no line feed at an index of at most
  \<open>length - 2\<close>, the result is the one-character string that holds a line feed: all of
  the content is dropped.
\<close>

theorem removeSourceMapComment_ends_with_newline:
  "(\<exists>n. removeSourceMapComment c = take n c @ ''\<newline>'')
   \<and> ((\<forall>i. i + 2 \<le> length c \<longrightarrow> c ! i \<noteq> CHR 0x0A)
        \<longrightarrow> removeSourceMapComment c = ''\<newline>'')"
  using removeSourceMapComment_shape removeSourceMapComment_single_line by blast

theorem removeSourceMapComment_ends_with_newline_witness:
  "removeSourceMapComment ''x;\<newline>'' = ''\<newline>''"
proof -
  have "\<forall>i. i + 2 \<le> length ''x;\<newline>'' \<longrightarrow> ''x;\<newline>'' ! i \<noteq> CHR 0x0A"
    by (auto simp: nth_Cons' le_Suc_eq)
  then show ?thesis
    using removeSourceMapComment_ends_with_newline [of "''x;\<newline>''"] by blast
qed

section \<open>Normalized paths\<close>




section \<open>Replay eligibility\<close>





section \<open>The output cache after a compilation\<close>

lemma reconcile_reported:
  "reported (outStreams (final (reconcile E c e))) = reported (outStreams c)"
  by (cases rule: reconcile_cases [of E c e]) simp_all

lemma emit_reported:
  "reported (outStreams (final (emit E c n f))) = reported (outStreams c)"
  using emit_cases [of E c n f] by (auto simp: pushJS_def)

lemma no_cache_no_replay:
  assumes "previousOutputJS s = None"
  shows "lazyCompile E (foldl (addFile E) (reset s) fs) io = Inr (False, io)"
proof -
  have "previousOutputJS (foldl (addFile E) (reset s) fs) = None"
    using assms by (simp add: ingest_frame reset_def)
  then show ?thesis
    by (intro lazyCompile_not_eligible) (simp add: eligible_def)
qed

text \<open>
  C4, failure invalidation. Let \<open>compile\<close> create the program \<open>prog\<close> and leave the
  project \<open>s'\<close> and the streams \<open>io'\<close>, whether it returns or throws. It reports the
  diagnostics of \<open>prog\<close>. If there is at least one, both cached output lists of \<open>s'\<close> are
  absent, and \<open>lazyCompile\<close> returns false in the next generation whatever files it
  ingests. If there is none, the cached lists are exactly the records of the files the
  compilation pushed to the two streams.
\<close>

theorem compile_output_cache:
  assumes "createdProgram E s = Some prog" and "final (compile E s io) = (s', io')"
  shows "reported io' = reported io @ errors prog
         \<and> (if errors prog \<noteq> []
            then previousOutputJS s' = None \<and> previousOutputDts s' = None
                 \<and> (\<forall>fs io2. lazyCompile E (foldl (addFile E) (reset s') fs) io2
                               = Inr (False, io2))
            else previousOutputJS s'
                   = Some (map asOutputFile (drop (length (jsStream io)) (jsStream io')))
                 \<and> previousOutputDts s'
                   = Some (map asOutputFile (drop (length (declStream io)) (declStream io'))))"
proof -
  let ?P = "\<lambda>c. cacheHolds (length (jsStream io)) (length (declStream io)) (errors prog = []) c
                \<and> reported (outStreams c) = reported io @ errors prog"
  have "\<exists>c. ?P c \<and> final (compile E s io) = (project c, outStreams c)"
  proof (rule compile_invariant [OF assms(1), where Q = "\<lambda>g. True"])
    fix s1 :: "('a, 'b) Project"
    assume "previousOutputJS s1 = (if errors prog \<noteq> [] then None else Some [])"
      and "previousOutputDts s1 = (if errors prog \<noteq> [] then None else Some [])"
    then show "?P \<lparr>project = s1, outStreams = io\<lparr>reported := reported io @ errors prog\<rparr>,
                   outputJS = [], sourcemaps = []\<rparr>"
      by (simp add: cacheHolds_def)
  qed (simp_all add: reconcile_cacheHolds emit_cacheHolds reconcile_reported emit_reported)
  then obtain c where c: "?P c" and "s' = project c" "io' = outStreams c"
    using assms(2) by auto
  then show ?thesis
    using no_cache_no_replay [of s' E] by (auto simp: cacheHolds_def)
qed

theorem compile_output_cache_witness:
  "previousOutputJS (fst (final (compile (envOf failingProgram)
       (addFile (envOf failingProgram) (reset (newProject None True False))
          (gulpSource ''/b/A.ts'' ''var a;'')) noOutput))) = None
   \<and> lazyCompile (envOf failingProgram)
        (foldl (addFile (envOf failingProgram))
           (reset (fst (final (compile (envOf failingProgram)
              (addFile (envOf failingProgram) (reset (newProject None True False))
                 (gulpSource ''/b/A.ts'' ''var a;'')) noOutput))))
           [gulpSource ''/b/A.ts'' ''var a;''])
        noOutput
      = Inr (False, noOutput)
   \<and> previousOutputJS (fst (final (compile (envOf scriptProgram)
       (addFile (envOf scriptProgram) (reset (newProject None True False))
          (gulpSource ''/b/A.ts'' ''var a;'')) noOutput)))
     = Some [\<lparr>out_filename = ''/b/A.js'', out_content = ''var a;\<newline>'',
              sourcemap = Some ''{map}''\<rparr>]"
proof -
  let ?s = "\<lambda>prog. addFile (envOf prog) (reset (newProject None True False))
                     (gulpSource ''/b/A.ts'' ''var a;'')"
  let ?r = "\<lambda>prog. final (compile (envOf prog) (?s prog) noOutput)"
  have created: "createdProgram (envOf prog) (?s prog) = Some prog" for prog
    by (rule sample_created)
  have bad: "errors failingProgram \<noteq> []" and good: "errors scriptProgram = []"
    by (simp_all add: failingProgram_def scriptProgram_def)
  have pushed: "jsStream (snd (?r scriptProgram))
      = [\<lparr>path = ''/b/A.js'', contents = ''var a;\<newline>'', cwd = ''/'', base = ''/b/'',
          sourceMap = Some ''{map}''\<rparr>]"
    by code_simp
  from compile_output_cache [OF created [of failingProgram], of noOutput
      "fst (?r failingProgram)" "snd (?r failingProgram)"] bad
  have none: "previousOutputJS (fst (?r failingProgram)) = None"
    and never: "\<forall>fs io2. lazyCompile (envOf failingProgram)
           (foldl (addFile (envOf failingProgram)) (reset (fst (?r failingProgram))) fs) io2
         = Inr (False, io2)"
    by simp_all
  from never have "lazyCompile (envOf failingProgram)
           (foldl (addFile (envOf failingProgram)) (reset (fst (?r failingProgram)))
              [gulpSource ''/b/A.ts'' ''var a;'']) noOutput
         = Inr (False, noOutput)"
    by blast
  note none this
  moreover from compile_output_cache [OF created [of scriptProgram], of noOutput
      "fst (?r scriptProgram)" "snd (?r scriptProgram)"] good
  have "previousOutputJS (fst (?r scriptProgram))
          = Some [\<lparr>out_filename = ''/b/A.js'', out_content = ''var a;\<newline>'',
                   sourcemap = Some ''{map}''\<rparr>]"
    by (simp add: pushed noOutput_streams asOutputFile_def)
  ultimately show ?thesis by simp
qed

section \<open>Scripts are stripped of the source map comment\<close>



section \<open>The resolver\<close>

lemma chainRun_resolution: "resolution chainEnv chainProject chainRun"
proof -
  let ?started = "resolveAll chainEnv chainProject"
  have one: "0 < length (pending ?started)"
    by code_simp
  have two: "0 < length (pending (readCompleted chainEnv ?started 0))"
    by code_simp
  from resolution.started have "resolution chainEnv chainProject ?started" .
  from resolution.completed [OF this one]
  have "resolution chainEnv chainProject (readCompleted chainEnv ?started 0)" .
  from resolution.completed [OF this two] show ?thesis
    by (simp only: chainRun_def)
qed

text \<open>
  C7, the completion callback runs exactly once. In every state of a run of
  \<open>resolveAll\<close> the counter \<open>tasks\<close> is the number of reads whose callback has not run yet,
  and the completion callback has run once if the counter is zero and not at all
  otherwise; this does not depend on how many reads were issued or on which of them
  failed. \<open>resolveAll\<close> itself runs the callback, before it returns, exactly when external
  resolution is switched off or it has issued no read.
\<close>

theorem resolveAll_calls_back_once:
  "(resolution E s r \<longrightarrow>
      tasks r = int (length (pending r)) \<and> callbacks r = (if tasks r = 0 then 1 else 0))
   \<and> callbacks (resolveAll E s)
       = (if noExternalResolve s \<or> issued (resolveAll E s) = [] then 1 else 0)"
proof -
  have "callbacks (resolveAll E s)
          = (if noExternalResolve s \<or> issued (resolveAll E s) = [] then 1 else 0)"
  proof (cases "noExternalResolve s")
    case True
    then show ?thesis by (simp add: resolveAll_def)
  next
    case False
    have "tasks (resolveAll E s) = 0 \<longleftrightarrow> issued (resolveAll E s) = []"
      using resolveAll_counter(1,2) [of E s] by simp
    with False show ?thesis
      using resolveAll_counter(3) [of E s] by simp
  qed
  then show ?thesis
    using resolution_counter [of E s r] by blast
qed

theorem resolveAll_calls_back_once_witness:
  "callbacks chainRun = 1 \<and> pending chainRun = []
   \<and> callbacks (resolveAll chainEnv chainProject) = 0
   \<and> map fst (issued chainRun) = [''/b/b.ts'', ''/b/c.ts'']"
proof -
  have "tasks chainRun = int (length (pending chainRun))
        \<and> callbacks chainRun = (if tasks chainRun = 0 then 1 else 0)"
    using resolveAll_calls_back_once [of chainEnv chainProject chainRun] chainRun_resolution
    by (rule conjunct1 [THEN mp])
  moreover have "pending chainRun = []"
    by code_simp
  ultimately have "callbacks chainRun = 1" by simp
  moreover have "issued (resolveAll chainEnv chainProject) \<noteq> []"
    and "\<not> noExternalResolve chainProject"
    by code_simp+
  then have "callbacks (resolveAll chainEnv chainProject) = 0"
    using resolveAll_calls_back_once [of chainEnv chainProject chainRun, THEN conjunct2] by simp
  moreover have "pending chainRun = []"
    and "map fst (issued chainRun) = [''/b/b.ts'', ''/b/c.ts'']"
    by code_simp+
  ultimately show ?thesis by simp
qed

text \<open>
  C8, disjoint file sets and single reads. In every state of a run of \<open>resolveAll\<close> in a
  generation (a reset followed by the ingestion of files), \<open>currentFiles\<close> and
  \<open>additionalFiles\<close> share no key, no two reads issued so far are for the same
  normalized path, and every path read has its entry in \<open>additionalFiles\<close>. A reference
  whose normalized path is a key of either map changes nothing; any other reference
  issues a read and stores the placeholder under its normalized path.
\<close>

theorem resolver_file_sets_disjoint:
  assumes "resolution E (foldl (addFile E) (reset s0) fs) r"
  shows "fst ` set (currentFiles (resolved r)) \<inter> fst ` set (additionalFiles (resolved r)) = {}
         \<and> distinct (map snd (issued r))
         \<and> snd ` set (issued r) \<subseteq> fst ` set (additionalFiles (resolved r))
         \<and> (if normalizePath E ref \<in> fst ` set (currentFiles (resolved r))
                                      \<union> fst ` set (additionalFiles (resolved r))
            then resolveReference E r ref = r
            else issued (resolveReference E r ref) = issued r @ [(ref, normalizePath E ref)]
                 \<and> map_of (additionalFiles (resolved (resolveReference E r ref)))
                      (normalizePath E ref) = Some unresolvedFile)"
proof -
  let ?s = "foldl (addFile E) (reset s0) fs"
  have "additionalFiles ?s = []"
    by (simp add: ingest_frame reset_def)
  then have "fst ` set (currentFiles ?s) \<inter> fst ` set (additionalFiles ?s) = {}"
    by simp
  from resolution_invariant [OF assms this] have c: "consistent 0 ?s r" ..
  note d = consistentD [OF c]
  have "fst ` set (currentFiles (resolved r)) \<inter> fst ` set (additionalFiles (resolved r)) = {}"
    using d(3) unfolding d(2) .
  moreover have "if normalizePath E ref \<in> fst ` set (currentFiles (resolved r))
                                      \<union> fst ` set (additionalFiles (resolved r))
            then resolveReference E r ref = r
            else issued (resolveReference E r ref) = issued r @ [(ref, normalizePath E ref)]
                 \<and> map_of (additionalFiles (resolved (resolveReference E r ref)))
                      (normalizePath E ref) = Some unresolvedFile"
    by (simp add: resolveReference_def Let_def update_conv')
  ultimately show ?thesis
    using d(4,5) by simp
qed

theorem resolver_file_sets_disjoint_witness:
  "map snd (issued chainRun) = [''/b/b.ts'', ''/b/c.ts'']
   \<and> distinct (map snd (issued chainRun))
   \<and> map fst (currentFiles (resolved chainRun)) = [''/b/a.ts'']
   \<and> map fst (additionalFiles (resolved chainRun)) = [''/b/b.ts'', ''/b/c.ts'']
   \<and> fst ` set (currentFiles (resolved chainRun))
         \<inter> fst ` set (additionalFiles (resolved chainRun)) = {}"
proof -
  have "chainProject
          = foldl (addFile chainEnv) (reset (newProject None False False))
              [gulpSource ''/b/A.ts'' ''var a;'']"
    by (simp add: chainProject_def)
  with chainRun_resolution
  have run: "resolution chainEnv
               (foldl (addFile chainEnv) (reset (newProject None False False))
                  [gulpSource ''/b/A.ts'' ''var a;'']) chainRun"
    by simp
  note inst = resolver_file_sets_disjoint [OF run, of "''b.ts''"]
  have "map snd (issued chainRun) = [''/b/b.ts'', ''/b/c.ts'']"
    and "map fst (currentFiles (resolved chainRun)) = [''/b/a.ts'']"
    and "map fst (additionalFiles (resolved chainRun)) = [''/b/b.ts'', ''/b/c.ts'']"
    by code_simp+
  with inst [THEN conjunct1] inst [THEN conjunct2, THEN conjunct1] show ?thesis
    by simp
qed


section \<open>Replay when the output is one file\<close>

text \<open>
  C1 at two inputs with \<open>out\<close> set to \<open>out.js\<close>. For the source \<open>/b/a.ts\<close> the first
  generation compiles without diagnostics and pushes \<open>/b/out.js\<close>; the second generation
  ingests the same file, \<open>lazyCompile\<close> returns true and pushes nothing, because the
  cached record is looked up under \<open>/b/out.ts\<close>, which is no unit. For the source
  \<open>/b/Out.ts\<close> that lookup finds the unit, and the file replayed is \<open>/b/Out.js\<close>, not
  the \<open>/b/out.js\<close> of the first generation.
\<close>

theorem lazyCompile_with_out:
  "(case compile (envOf bundleProgram)
           (addFile (envOf bundleProgram) (reset (newProject (Some ''out.js'') True False))
              (gulpSource ''/b/a.ts'' ''var a;''))
           noOutput of
      Inl thrown \<Rightarrow> False
    | Inr (s1, io1) \<Rightarrow>
        map path (jsStream io1) = [''/b/out.js'']
        \<and> lazyCompile (envOf bundleProgram)
            (addFile (envOf bundleProgram) (reset s1) (gulpSource ''/b/a.ts'' ''var a;''))
            noOutput
          = Inr (True, noOutput))
   \<and> (case compile (envOf bundleProgram)
           (addFile (envOf bundleProgram) (reset (newProject (Some ''out.js'') True False))
              (gulpSource ''/b/Out.ts'' ''var a;''))
           noOutput of
      Inl thrown \<Rightarrow> False
    | Inr (s1, io1) \<Rightarrow>
        map path (jsStream io1) = [''/b/out.js'']
        \<and> map_sum jsStream (\<lambda>r. (fst r, map path (jsStream (snd r))))
            (lazyCompile (envOf bundleProgram)
               (addFile (envOf bundleProgram) (reset s1) (gulpSource ''/b/Out.ts'' ''var a;''))
               noOutput)
          = Inr (True, [''/b/Out.js'']))"
  by code_simp


section \<open>Sorted emission\<close>





end
